theory Spec2Isabelle
  imports Main "HOL-Library.Word"
begin

section \<open>DeKeyBounce: the per-key debounce engine of \<^verbatim>\<open>DeKeyBounce.c\<close>\<close>

text \<open>
  The engine is the event-tap callback \<^verbatim>\<open>OnKeyEvent\<close> together with the two globals
  it reads and writes: \<^verbatim>\<open>theKeySet\<close> (a \<^verbatim>\<open>CFMutableSet\<close> of \<^verbatim>\<open>KeyData\<close> values whose
  equality callback compares key codes only) and \<^verbatim>\<open>theMinTimestampDiff\<close> (set once by
  \<^verbatim>\<open>main\<close>). Both versions of the file under \<^verbatim>\<open>src/\<close> have the same \<^verbatim>\<open>OnKeyEvent\<close>,
  the same set callbacks and the same configuration lines in \<^verbatim>\<open>main\<close>; they differ in
  signal handling only, which is not modelled.
\<close>

subsection \<open>Data\<close>

text \<open>
  \<^verbatim>\<open>typedef struct _KeyData { uint64_t nKeyCode; uint64_t nLastKeyUpTimestamp; } KeyData;\<close>
\<close>

record KeyData =
  nKeyCode :: "64 word"
  nLastKeyUpTimestamp :: "64 word"

text \<open>
  What \<^verbatim>\<open>OnKeyEvent\<close> reads from the \<^verbatim>\<open>CGEventRef\<close> it is handed: the key code
  (\<^verbatim>\<open>CGEventGetIntegerValueField(rEvent, kCGKeyboardEventKeycode)\<close>, stored in a
  \<^verbatim>\<open>uint64_t\<close>) and the timestamp (\<^verbatim>\<open>CGEventGetTimestamp\<close>, a \<^verbatim>\<open>uint64_t\<close> of
  nanoseconds).
\<close>

record CGEvent =
  keycode :: "64 word"
  timestamp :: "64 word"

text \<open>
  The event type the tap passes to the callback. The tap is created with a mask of key-down
  and key-up; the \<^verbatim>\<open>switch\<close> has no \<^verbatim>\<open>default\<close>, so any other type falls through it.
\<close>

datatype CGEventType = kCGEventKeyDown | kCGEventKeyUp | kCGEventOther

text \<open>The globals of the file that the engine uses.\<close>

record globals =
  theKeySet :: "KeyData list"
  theMinTimestampDiff :: "64 word"

subsection \<open>The set callbacks\<close>

definition IsKeyDataEqual :: "KeyData \<Rightarrow> KeyData \<Rightarrow> bool" where
  "IsKeyDataEqual pValue1 pValue2 = (nKeyCode pValue1 = nKeyCode pValue2)"

definition KeyDataHash :: "KeyData \<Rightarrow> 64 word" where
  "KeyDataHash pValue = nKeyCode pValue"

text \<open>
  \<^verbatim>\<open>RetainKeyData\<close> allocates a fresh \<^verbatim>\<open>KeyData\<close> and copies both fields; the set stores
  the copy. The allocation is taken to succeed.
\<close>

definition RetainKeyData :: "KeyData \<Rightarrow> KeyData" where
  "RetainKeyData pValue =
     \<lparr>nKeyCode = nKeyCode pValue, nLastKeyUpTimestamp = nLastKeyUpTimestamp pValue\<rparr>"

subsection \<open>The set\<close>

text \<open>
  \<^verbatim>\<open>theKeySet\<close> is a CoreFoundation mutable set created with the callbacks above. It is
  modelled as the list of the values it stores. A pointer to a stored value is its position
  in the list: \<^verbatim>\<open>CFSetGetValue\<close> returns the position of the stored value that the
  equality callback identifies with the probe, or \<open>None\<close> for the \<^verbatim>\<open>NULL\<close> it returns
  when there is none. \<^verbatim>\<open>CFSetAddValue\<close> stores the retained copy of a value unless an
  equal one is stored already, in which case it does nothing.
\<close>

fun CFSetGetValue :: "KeyData list \<Rightarrow> KeyData \<Rightarrow> nat option" where
  "CFSetGetValue [] v = None"
| "CFSetGetValue (e # es) v =
     (if IsKeyDataEqual e v then Some 0 else map_option Suc (CFSetGetValue es v))"

definition CFSetAddValue :: "KeyData list \<Rightarrow> KeyData \<Rightarrow> KeyData list" where
  "CFSetAddValue ks v =
     (case CFSetGetValue ks v of None \<Rightarrow> ks @ [RetainKeyData v] | Some p \<Rightarrow> ks)"

text \<open>
  The assignment \<^verbatim>\<open>pOldKeyData->nLastKeyUpTimestamp = t\<close> through a pointer into the set.
\<close>

definition set_nLastKeyUpTimestamp :: "KeyData list \<Rightarrow> nat \<Rightarrow> 64 word \<Rightarrow> KeyData list" where
  "set_nLastKeyUpTimestamp ks p t = ks[p := (ks ! p)\<lparr>nLastKeyUpTimestamp := t\<rparr>]"

subsection \<open>The callback\<close>

text \<open>
  \<^verbatim>\<open>OnKeyEvent\<close> returns the event it was given (the event continues to the consumers:
  the spec's verdict Pass) or \<^verbatim>\<open>NULL\<close> (the event is consumed: Swallow). The result is
  \<open>Some rEvent\<close> or \<open>None\<close>, paired with the globals after the call.
\<close>

definition OnKeyEvent :: "globals \<Rightarrow> CGEventType \<Rightarrow> CGEvent \<Rightarrow> CGEvent option \<times> globals" where
  "OnKeyEvent g aEventType rEvent =
     (let aNewKeyData = \<lparr>nKeyCode = keycode rEvent, nLastKeyUpTimestamp = timestamp rEvent\<rparr>;
          pOldKeyData = CFSetGetValue (theKeySet g) aNewKeyData
      in case aEventType of
           kCGEventKeyDown \<Rightarrow>
             (case pOldKeyData of
                None \<Rightarrow> (Some rEvent, g)
              | Some p \<Rightarrow>
                  if nLastKeyUpTimestamp (theKeySet g ! p) = 0 then (None, g)
                  else if nLastKeyUpTimestamp aNewKeyData
                            < nLastKeyUpTimestamp (theKeySet g ! p) + theMinTimestampDiff g
                  then (None, g\<lparr>theKeySet := set_nLastKeyUpTimestamp (theKeySet g) p 0\<rparr>)
                  else (Some rEvent, g))
         | kCGEventKeyUp \<Rightarrow>
             (case pOldKeyData of
                None \<Rightarrow> (Some rEvent, g\<lparr>theKeySet := CFSetAddValue (theKeySet g) aNewKeyData\<rparr>)
              | Some p \<Rightarrow>
                  if nLastKeyUpTimestamp (theKeySet g ! p) = 0
                  then (None, g\<lparr>theKeySet := set_nLastKeyUpTimestamp (theKeySet g) p
                                                 (nLastKeyUpTimestamp aNewKeyData)\<rparr>)
                  else (Some rEvent, g\<lparr>theKeySet := set_nLastKeyUpTimestamp (theKeySet g) p
                                                        (nLastKeyUpTimestamp aNewKeyData)\<rparr>))
         | kCGEventOther \<Rightarrow> (Some rEvent, g))"

subsection \<open>Start-up\<close>

definition DEFAULT_MIN_TIMESTAMP_DIFF :: "64 word" where
  "DEFAULT_MIN_TIMESTAMP_DIFF = 20"

text \<open>
  The configuration lines of \<^verbatim>\<open>main\<close>. The argument is \<open>None\<close> when \<^verbatim>\<open>argc > 1\<close> is
  false, and otherwise \<open>Some n\<close> with \<open>n\<close> the value \<^verbatim>\<open>strtoul(argv[1], NULL, 10)\<close>
  returns (a C library function, not modelled). \<^verbatim>\<open>theMinTimestampDiff\<close> is a static
  initialised to 0; the multiplication is done in \<^verbatim>\<open>uint64_t\<close>.
\<close>

definition main_theMinTimestampDiff :: "64 word option \<Rightarrow> 64 word" where
  "main_theMinTimestampDiff argv1 =
     (let d0 = (0 :: 64 word);
          d1 = (case argv1 of None \<Rightarrow> d0 | Some n \<Rightarrow> n);
          d2 = (if d1 = 0 then DEFAULT_MIN_TIMESTAMP_DIFF else d1)
      in d2 * 1000000)"

text \<open>
  \<^verbatim>\<open>Init\<close> creates the empty set. \<open>main_globals\<close> is the value of the globals when
  \<^verbatim>\<open>main\<close> enters \<^verbatim>\<open>CFRunLoopRun\<close>, that is, after the privilege checks and \<^verbatim>\<open>Init\<close>
  have succeeded.
\<close>

definition Init :: "globals \<Rightarrow> globals" where
  "Init g = g\<lparr>theKeySet := []\<rparr>"

definition main_globals :: "64 word option \<Rightarrow> globals" where
  "main_globals argv1 =
     Init \<lparr>theKeySet = [], theMinTimestampDiff = main_theMinTimestampDiff argv1\<rparr>"

text \<open>
  The run loop hands the events to the callback one at a time, in order. \<open>run_loop\<close>
  returns the results of the calls, in order, and the globals after the last one.
\<close>

fun run_loop :: "globals \<Rightarrow> (CGEventType \<times> CGEvent) list \<Rightarrow> CGEvent option list \<times> globals" where
  "run_loop g [] = ([], g)"
| "run_loop g ((ty, ev) # evs) =
     (let (r, g') = OnKeyEvent g ty ev;
          (rs, g'') = run_loop g' evs
      in (r # rs, g''))"

subsection \<open>Observing the state of one key\<close>

text \<open>
  What the engine has stored for key code \<open>k\<close>: \<open>None\<close> when the set holds no value for
  \<open>k\<close>, otherwise the \<^verbatim>\<open>nLastKeyUpTimestamp\<close> of the value \<^verbatim>\<open>CFSetGetValue\<close> finds for
  \<open>k\<close>. The stored value 0 is the one the callback treats as "held down" (the spec's
  \<open>PRESSED\<close>); every other stored value is a recorded release time.
\<close>
definition KeyState :: "globals \<Rightarrow> 64 word \<Rightarrow> 64 word option" where
  "KeyState g k =
     (case CFSetGetValue (theKeySet g) \<lparr>nKeyCode = k, nLastKeyUpTimestamp = 0\<rparr> of
        None \<Rightarrow> None
      | Some p \<Rightarrow> Some (nLastKeyUpTimestamp (theKeySet g ! p)))"

subsection \<open>The events and results of one key\<close>

text \<open>
  \<open>events_of k evs\<close> keeps the events of \<open>evs\<close> whose key code is \<open>k\<close>, in order;
  \<open>results_of k evs rs\<close> keeps, of the results \<open>rs\<close> of the calls for \<open>evs\<close>, those of the
  events whose key code is \<open>k\<close>.
\<close>

definition events_of :: "64 word \<Rightarrow> (CGEventType \<times> CGEvent) list \<Rightarrow> (CGEventType \<times> CGEvent) list" where
  "events_of k evs = filter (\<lambda>e. keycode (snd e) = k) evs"

definition results_of ::
  "64 word \<Rightarrow> (CGEventType \<times> CGEvent) list \<Rightarrow> CGEvent option list \<Rightarrow> CGEvent option list" where
  "results_of k evs rs = map snd (filter (\<lambda>er. keycode (snd (fst er)) = k) (zip evs rs))"

section \<open>Properties\<close>

subsection \<open>Looking up and storing in the set\<close>

lemma KeyDataHash_IsKeyDataEqual:
  "IsKeyDataEqual v w \<Longrightarrow> KeyDataHash v = KeyDataHash w"
  by (simp add: IsKeyDataEqual_def KeyDataHash_def)

lemma CFSetGetValue_cong:
  "nKeyCode v = nKeyCode w \<Longrightarrow> CFSetGetValue ks v = CFSetGetValue ks w"
  by (induction ks) (auto simp: IsKeyDataEqual_def)

lemma CFSetGetValue_Some:
  "CFSetGetValue ks v = Some p \<Longrightarrow> p < length ks \<and> nKeyCode (ks ! p) = nKeyCode v"
  by (induction ks arbitrary: p) (auto simp: IsKeyDataEqual_def split: if_splits)

lemma CFSetGetValue_None:
  "CFSetGetValue ks v = None \<longleftrightarrow> nKeyCode v \<notin> nKeyCode ` set ks"
  by (induction ks) (auto simp: IsKeyDataEqual_def)

lemma CFSetGetValue_keys:
  "map nKeyCode ks = map nKeyCode ks' \<Longrightarrow> CFSetGetValue ks v = CFSetGetValue ks' v"
proof (induction ks arbitrary: ks')
  case Nil
  then show ?case by simp
next
  case (Cons e es)
  then obtain e' es' where ks': "ks' = e' # es'" by (cases ks') auto
  with Cons.prems have "nKeyCode e = nKeyCode e'" "map nKeyCode es = map nKeyCode es'"
    by simp_all
  with Cons.IH [of es'] ks' show ?case
    by (simp add: IsKeyDataEqual_def)
qed

lemma keys_set_nLastKeyUpTimestamp:
  "map nKeyCode (set_nLastKeyUpTimestamp ks p t) = map nKeyCode ks"
  by (cases "p < length ks") (simp_all add: set_nLastKeyUpTimestamp_def map_update list_update_same_conv list_update_beyond)

lemma nth_set_nLastKeyUpTimestamp:
  "q < length ks \<Longrightarrow>
   nLastKeyUpTimestamp (set_nLastKeyUpTimestamp ks p t ! q) =
     (if q = p then t else nLastKeyUpTimestamp (ks ! q))"
  by (simp add: set_nLastKeyUpTimestamp_def nth_list_update)

lemma CFSetGetValue_set_nLastKeyUpTimestamp:
  "CFSetGetValue (set_nLastKeyUpTimestamp ks p t) v = CFSetGetValue ks v"
  by (rule CFSetGetValue_keys) (rule keys_set_nLastKeyUpTimestamp)

lemma CFSetGetValue_append:
  "CFSetGetValue (ks @ [e]) v =
     (case CFSetGetValue ks v of
        Some p \<Rightarrow> Some p
      | None \<Rightarrow> if IsKeyDataEqual e v then Some (length ks) else None)"
  by (induction ks) (auto split: option.splits)

lemma CFSetGetValue_nth_append:
  "CFSetGetValue ks v = Some p \<Longrightarrow> (ks @ es) ! p = ks ! p"
  by (simp add: CFSetGetValue_Some nth_append)

lemma KeyState_store:
  assumes "CFSetGetValue (theKeySet g) v = Some p"
  shows "KeyState (g\<lparr>theKeySet := set_nLastKeyUpTimestamp (theKeySet g) p t\<rparr>) k =
           (if k = nKeyCode v then Some t else KeyState g k)"
proof -
  let ?pr = "\<lparr>nKeyCode = k, nLastKeyUpTimestamp = 0\<rparr>"
  from assms have p: "p < length (theKeySet g)" "nKeyCode (theKeySet g ! p) = nKeyCode v"
    by (simp_all add: CFSetGetValue_Some)
  show ?thesis
  proof (cases "k = nKeyCode v")
    case True
    then have "CFSetGetValue (theKeySet g) ?pr = Some p"
      using assms CFSetGetValue_cong [of ?pr v "theKeySet g"] by simp
    with True p show ?thesis
      by (simp add: KeyState_def CFSetGetValue_set_nLastKeyUpTimestamp nth_set_nLastKeyUpTimestamp)
  next
    case False
    show ?thesis
    proof (cases "CFSetGetValue (theKeySet g) ?pr")
      case None
      with False show ?thesis
        by (simp add: KeyState_def CFSetGetValue_set_nLastKeyUpTimestamp)
    next
      case (Some q)
      then have q: "q < length (theKeySet g)" "nKeyCode (theKeySet g ! q) = k"
        using CFSetGetValue_Some [of "theKeySet g" ?pr q] by simp_all
      with p False have "q \<noteq> p" by auto
      with Some False q show ?thesis
        by (simp add: KeyState_def CFSetGetValue_set_nLastKeyUpTimestamp nth_set_nLastKeyUpTimestamp)
    qed
  qed
qed

lemma KeyState_add:
  assumes "CFSetGetValue (theKeySet g) v = None"
  shows "KeyState (g\<lparr>theKeySet := CFSetAddValue (theKeySet g) v\<rparr>) k =
           (if k = nKeyCode v then Some (nLastKeyUpTimestamp v) else KeyState g k)"
proof -
  let ?pr = "\<lparr>nKeyCode = k, nLastKeyUpTimestamp = 0\<rparr>"
  show ?thesis
  proof (cases "k = nKeyCode v")
    case True
    then have "CFSetGetValue (theKeySet g) ?pr = None"
      using assms CFSetGetValue_cong [of ?pr v "theKeySet g"] by simp
    with True assms show ?thesis
      by (simp add: KeyState_def CFSetAddValue_def CFSetGetValue_append IsKeyDataEqual_def
          RetainKeyData_def)
  next
    case False
    with assms show ?thesis
      by (auto simp: KeyState_def CFSetAddValue_def CFSetGetValue_append IsKeyDataEqual_def
          RetainKeyData_def CFSetGetValue_nth_append split: option.splits)
  qed
qed

lemma KeyState_probe:
  "KeyState g (keycode ev) =
     map_option (\<lambda>p. nLastKeyUpTimestamp (theKeySet g ! p))
       (CFSetGetValue (theKeySet g) \<lparr>nKeyCode = keycode ev, nLastKeyUpTimestamp = timestamp ev\<rparr>)"
  using CFSetGetValue_cong [of "\<lparr>nKeyCode = keycode ev, nLastKeyUpTimestamp = 0\<rparr>"
      "\<lparr>nKeyCode = keycode ev, nLastKeyUpTimestamp = timestamp ev\<rparr>" "theKeySet g"]
  by (simp add: KeyState_def split: option.splits)

subsection \<open>One call of the callback, by the state of the event's key\<close>

lemma KeyDown_absent:
  "KeyState g (keycode ev) = None \<Longrightarrow> OnKeyEvent g kCGEventKeyDown ev = (Some ev, g)"
  by (simp add: KeyState_probe OnKeyEvent_def)

lemma KeyDown_held:
  "KeyState g (keycode ev) = Some 0 \<Longrightarrow> OnKeyEvent g kCGEventKeyDown ev = (None, g)"
  by (auto simp: KeyState_probe OnKeyEvent_def)

lemma KeyDown_late:
  assumes "KeyState g (keycode ev) = Some T" "T \<noteq> 0"
    and "\<not> timestamp ev < T + theMinTimestampDiff g"
  shows "OnKeyEvent g kCGEventKeyDown ev = (Some ev, g)"
  using assms by (auto simp: KeyState_probe OnKeyEvent_def)

lemma KeyDown_early:
  assumes "KeyState g (keycode ev) = Some T" "T \<noteq> 0"
    and "timestamp ev < T + theMinTimestampDiff g"
  shows "fst (OnKeyEvent g kCGEventKeyDown ev) = None"
    and "KeyState (snd (OnKeyEvent g kCGEventKeyDown ev)) k =
           (if k = keycode ev then Some 0 else KeyState g k)"
    and "theMinTimestampDiff (snd (OnKeyEvent g kCGEventKeyDown ev)) = theMinTimestampDiff g"
proof -
  let ?v = "\<lparr>nKeyCode = keycode ev, nLastKeyUpTimestamp = timestamp ev\<rparr>"
  from assms(1) obtain p where p: "CFSetGetValue (theKeySet g) ?v = Some p"
    and T: "nLastKeyUpTimestamp (theKeySet g ! p) = T"
    by (auto simp: KeyState_probe)
  with assms(2,3) have step: "OnKeyEvent g kCGEventKeyDown ev =
      (None, g\<lparr>theKeySet := set_nLastKeyUpTimestamp (theKeySet g) p 0\<rparr>)"
    by (simp add: OnKeyEvent_def Let_def)
  show "fst (OnKeyEvent g kCGEventKeyDown ev) = None"
    by (simp add: step)
  show "KeyState (snd (OnKeyEvent g kCGEventKeyDown ev)) k =
          (if k = keycode ev then Some 0 else KeyState g k)"
    using KeyState_store [OF p, of 0 k] by (simp add: step)
  show "theMinTimestampDiff (snd (OnKeyEvent g kCGEventKeyDown ev)) = theMinTimestampDiff g"
    by (simp add: step)
qed

lemma KeyUp_absent:
  assumes "KeyState g (keycode ev) = None"
  shows "OnKeyEvent g kCGEventKeyUp ev =
           (Some ev, g\<lparr>theKeySet := theKeySet g @
               [\<lparr>nKeyCode = keycode ev, nLastKeyUpTimestamp = timestamp ev\<rparr>]\<rparr>)"
  using assms
  by (simp add: KeyState_probe OnKeyEvent_def CFSetAddValue_def RetainKeyData_def)

lemma KeyUp_verdict:
  "fst (OnKeyEvent g kCGEventKeyUp ev) =
     (if KeyState g (keycode ev) = Some 0 then None else Some ev)"
  by (auto simp: KeyState_probe OnKeyEvent_def Let_def split: option.splits)

lemma KeyUp_KeyState:
  "KeyState (snd (OnKeyEvent g kCGEventKeyUp ev)) k =
     (if k = keycode ev then Some (timestamp ev) else KeyState g k)"
proof -
  let ?v = "\<lparr>nKeyCode = keycode ev, nLastKeyUpTimestamp = timestamp ev\<rparr>"
  show ?thesis
  proof (cases "CFSetGetValue (theKeySet g) ?v")
    case None
    then have "snd (OnKeyEvent g kCGEventKeyUp ev) =
        g\<lparr>theKeySet := CFSetAddValue (theKeySet g) ?v\<rparr>"
      by (simp add: OnKeyEvent_def Let_def)
    with KeyState_add [OF None, of k] show ?thesis by simp
  next
    case (Some p)
    then have "snd (OnKeyEvent g kCGEventKeyUp ev) =
        g\<lparr>theKeySet := set_nLastKeyUpTimestamp (theKeySet g) p (timestamp ev)\<rparr>"
      by (simp add: OnKeyEvent_def Let_def)
    with KeyState_store [OF Some, of "timestamp ev" k] show ?thesis by simp
  qed
qed

lemma theMinTimestampDiff_OnKeyEvent:
  "theMinTimestampDiff (snd (OnKeyEvent g ty ev)) = theMinTimestampDiff g"
  by (simp add: OnKeyEvent_def Let_def split: CGEventType.splits option.splits)

lemma less_sum_unat:
  fixes ts T d :: "64 word"
  shows "ts < T + d \<longleftrightarrow> unat ts < (unat T + unat d) mod 2 ^ 64"
  by (simp add: word_less_nat_alt unat_word_ariths)

subsection \<open>The rows of the state-machine table\<close>

text \<open>
  Claim C2. For a key whose stored state is the held-down value 0 (\<open>PRESSED\<close>), a key-down
  is swallowed and the globals are left as they were; a key-up is swallowed and the stored
  timestamp of the key becomes the timestamp of the key-up event.
\<close>

theorem C2_held_key:
  assumes "KeyState g (keycode ev) = Some 0"
  shows "OnKeyEvent g kCGEventKeyDown ev = (None, g) \<and>
         fst (OnKeyEvent g kCGEventKeyUp ev) = None \<and>
         KeyState (snd (OnKeyEvent g kCGEventKeyUp ev)) (keycode ev) = Some (timestamp ev)"
  using assms by (simp add: KeyDown_held KeyUp_verdict KeyUp_KeyState)

theorem C2_held_key_witness:
  "KeyState \<lparr>theKeySet = [\<lparr>nKeyCode = 7, nLastKeyUpTimestamp = 0\<rparr>],
             theMinTimestampDiff = 20000000\<rparr>
     (keycode \<lparr>keycode = 7, timestamp = 90000000\<rparr>) = Some 0 \<and>
   OnKeyEvent \<lparr>theKeySet = [\<lparr>nKeyCode = 7, nLastKeyUpTimestamp = 0\<rparr>],
               theMinTimestampDiff = 20000000\<rparr>
     kCGEventKeyDown \<lparr>keycode = 7, timestamp = 90000000\<rparr> =
     (None, \<lparr>theKeySet = [\<lparr>nKeyCode = 7, nLastKeyUpTimestamp = 0\<rparr>],
              theMinTimestampDiff = 20000000\<rparr>) \<and>
   fst (OnKeyEvent \<lparr>theKeySet = [\<lparr>nKeyCode = 7, nLastKeyUpTimestamp = 0\<rparr>],
                    theMinTimestampDiff = 20000000\<rparr>
          kCGEventKeyUp \<lparr>keycode = 7, timestamp = 90000000\<rparr>) = None \<and>
   KeyState (snd (OnKeyEvent \<lparr>theKeySet = [\<lparr>nKeyCode = 7, nLastKeyUpTimestamp = 0\<rparr>],
                              theMinTimestampDiff = 20000000\<rparr>
                    kCGEventKeyUp \<lparr>keycode = 7, timestamp = 90000000\<rparr>)) 7 = Some 90000000"
proof -
  have h: "KeyState \<lparr>theKeySet = [\<lparr>nKeyCode = 7, nLastKeyUpTimestamp = 0\<rparr>],
                     theMinTimestampDiff = 20000000\<rparr>
             (keycode \<lparr>keycode = 7, timestamp = 90000000\<rparr>) = Some 0"
    by (simp add: KeyState_def IsKeyDataEqual_def)
  show ?thesis
    using h C2_held_key [OF h] by simp
qed

text \<open>
  Claim C3. For a key with no stored value, a key-down is passed and the globals are left
  as they were (no value is stored); a key-up is passed and stores a value for the key whose
  timestamp is the timestamp of the key-up event.
\<close>

theorem C3_unseen_key:
  assumes "KeyState g (keycode ev) = None"
  shows "OnKeyEvent g kCGEventKeyDown ev = (Some ev, g) \<and>
         KeyState (snd (OnKeyEvent g kCGEventKeyDown ev)) (keycode ev) = None \<and>
         OnKeyEvent g kCGEventKeyUp ev =
           (Some ev, g\<lparr>theKeySet := theKeySet g @
               [\<lparr>nKeyCode = keycode ev, nLastKeyUpTimestamp = timestamp ev\<rparr>]\<rparr>) \<and>
         KeyState (snd (OnKeyEvent g kCGEventKeyUp ev)) (keycode ev) = Some (timestamp ev)"
  using assms by (simp add: KeyDown_absent KeyUp_absent [symmetric] KeyUp_KeyState)

theorem C3_unseen_key_witness:
  "KeyState \<lparr>theKeySet = [], theMinTimestampDiff = 20000000\<rparr>
     (keycode \<lparr>keycode = 7, timestamp = 90000000\<rparr>) = None \<and>
   OnKeyEvent \<lparr>theKeySet = [], theMinTimestampDiff = 20000000\<rparr>
     kCGEventKeyDown \<lparr>keycode = 7, timestamp = 90000000\<rparr> =
     (Some \<lparr>keycode = 7, timestamp = 90000000\<rparr>,
      \<lparr>theKeySet = [], theMinTimestampDiff = 20000000\<rparr>) \<and>
   OnKeyEvent \<lparr>theKeySet = [], theMinTimestampDiff = 20000000\<rparr>
     kCGEventKeyUp \<lparr>keycode = 7, timestamp = 90000000\<rparr> =
     (Some \<lparr>keycode = 7, timestamp = 90000000\<rparr>,
      \<lparr>theKeySet = [\<lparr>nKeyCode = 7, nLastKeyUpTimestamp = 90000000\<rparr>],
       theMinTimestampDiff = 20000000\<rparr>)"
proof -
  have h: "KeyState \<lparr>theKeySet = [], theMinTimestampDiff = 20000000\<rparr>
             (keycode \<lparr>keycode = 7, timestamp = 90000000\<rparr>) = None"
    by (simp add: KeyState_def)
  show ?thesis
    using h C3_unseen_key [OF h] by simp
qed

text \<open>
  Claim C4. For a key whose stored value is a release time \<open>T\<close> (not the held-down value
  0), a key-up is passed and the stored timestamp becomes the timestamp of the key-up event,
  whatever the two timestamps and the threshold are. A key-up is swallowed only when the
  stored state of its key is the held-down value.
\<close>

theorem C4_release_after_release:
  "(KeyState g (keycode ev) = Some T \<and> T \<noteq> 0 \<longrightarrow>
      fst (OnKeyEvent g kCGEventKeyUp ev) = Some ev \<and>
      KeyState (snd (OnKeyEvent g kCGEventKeyUp ev)) (keycode ev) = Some (timestamp ev)) \<and>
   (fst (OnKeyEvent g kCGEventKeyUp ev) = None \<longleftrightarrow> KeyState g (keycode ev) = Some 0)"
  by (simp add: KeyUp_verdict KeyUp_KeyState)

theorem C4_release_after_release_witness:
  "KeyState \<lparr>theKeySet = [\<lparr>nKeyCode = 7, nLastKeyUpTimestamp = 50000000\<rparr>],
             theMinTimestampDiff = 20000000\<rparr>
     (keycode \<lparr>keycode = 7, timestamp = 50000001\<rparr>) = Some 50000000 \<and>
   (50000000 :: 64 word) \<noteq> 0 \<and>
   fst (OnKeyEvent \<lparr>theKeySet = [\<lparr>nKeyCode = 7, nLastKeyUpTimestamp = 50000000\<rparr>],
                    theMinTimestampDiff = 20000000\<rparr>
          kCGEventKeyUp \<lparr>keycode = 7, timestamp = 50000001\<rparr>) =
     Some \<lparr>keycode = 7, timestamp = 50000001\<rparr> \<and>
   KeyState (snd (OnKeyEvent \<lparr>theKeySet = [\<lparr>nKeyCode = 7, nLastKeyUpTimestamp = 50000000\<rparr>],
                              theMinTimestampDiff = 20000000\<rparr>
                    kCGEventKeyUp \<lparr>keycode = 7, timestamp = 50000001\<rparr>)) 7 = Some 50000001"
proof -
  have h: "KeyState \<lparr>theKeySet = [\<lparr>nKeyCode = 7, nLastKeyUpTimestamp = 50000000\<rparr>],
                     theMinTimestampDiff = 20000000\<rparr>
             (keycode \<lparr>keycode = 7, timestamp = 50000001\<rparr>) = Some 50000000 \<and>
           (50000000 :: 64 word) \<noteq> 0"
    by (simp add: KeyState_def IsKeyDataEqual_def)
  show ?thesis
    using h C4_release_after_release
      [of "\<lparr>theKeySet = [\<lparr>nKeyCode = 7, nLastKeyUpTimestamp = 50000000\<rparr>],
            theMinTimestampDiff = 20000000\<rparr>"
          "\<lparr>keycode = 7, timestamp = 50000001\<rparr>" 50000000]
    by simp
qed

text \<open>
  Claim C1, as the code has it. For a key whose stored value is a release time \<open>T\<close> (not
  the held-down value 0), a key-down is judged against the 64-bit sum of \<open>T\<close> and the
  threshold, that is, against \<open>(T + minInterval) mod 2\<^sup>6\<^sup>4\<close>: at or after it the event
  is passed and the globals are left as they were; before it the event is swallowed and the
  stored state of the key becomes the held-down value. Whenever \<open>T + minInterval\<close> is below
  \<open>2\<^sup>6\<^sup>4\<close> this is the comparison with \<open>T + minInterval\<close> itself.
\<close>

theorem C1_press_after_release:
  assumes "KeyState g (keycode ev) = Some T" and "T \<noteq> 0"
  shows "((unat T + unat (theMinTimestampDiff g)) mod 2 ^ 64 \<le> unat (timestamp ev) \<longrightarrow>
            OnKeyEvent g kCGEventKeyDown ev = (Some ev, g)) \<and>
         (unat (timestamp ev) < (unat T + unat (theMinTimestampDiff g)) mod 2 ^ 64 \<longrightarrow>
            fst (OnKeyEvent g kCGEventKeyDown ev) = None \<and>
            KeyState (snd (OnKeyEvent g kCGEventKeyDown ev)) (keycode ev) = Some 0) \<and>
         (unat T + unat (theMinTimestampDiff g) < 2 ^ 64 \<longrightarrow>
            (unat T + unat (theMinTimestampDiff g) \<le> unat (timestamp ev) \<longrightarrow>
               OnKeyEvent g kCGEventKeyDown ev = (Some ev, g)) \<and>
            (unat (timestamp ev) < unat T + unat (theMinTimestampDiff g) \<longrightarrow>
               fst (OnKeyEvent g kCGEventKeyDown ev) = None \<and>
               KeyState (snd (OnKeyEvent g kCGEventKeyDown ev)) (keycode ev) = Some 0))"
proof -
  let ?s = "(unat T + unat (theMinTimestampDiff g)) mod 2 ^ 64"
  have late: "OnKeyEvent g kCGEventKeyDown ev = (Some ev, g)" if "?s \<le> unat (timestamp ev)"
  proof -
    from that have "\<not> timestamp ev < T + theMinTimestampDiff g"
      by (simp add: less_sum_unat)
    with assms show ?thesis by (rule KeyDown_late)
  qed
  have early: "fst (OnKeyEvent g kCGEventKeyDown ev) = None \<and>
      KeyState (snd (OnKeyEvent g kCGEventKeyDown ev)) (keycode ev) = Some 0"
    if "unat (timestamp ev) < ?s"
  proof -
    from that have "timestamp ev < T + theMinTimestampDiff g"
      by (simp add: less_sum_unat)
    with assms show ?thesis by (simp add: KeyDown_early)
  qed
  have small: "?s = unat T + unat (theMinTimestampDiff g)"
    if "unat T + unat (theMinTimestampDiff g) < 2 ^ 64"
    using that by simp
  from late early small show ?thesis by metis
qed

theorem C1_press_after_release_witness:
  "KeyState \<lparr>theKeySet = [\<lparr>nKeyCode = 7, nLastKeyUpTimestamp = 50000000\<rparr>],
             theMinTimestampDiff = 20000000\<rparr>
     (keycode \<lparr>keycode = 7, timestamp = 70000000\<rparr>) = Some 50000000 \<and>
   (50000000 :: 64 word) \<noteq> 0 \<and>
   OnKeyEvent \<lparr>theKeySet = [\<lparr>nKeyCode = 7, nLastKeyUpTimestamp = 50000000\<rparr>],
               theMinTimestampDiff = 20000000\<rparr>
     kCGEventKeyDown \<lparr>keycode = 7, timestamp = 70000000\<rparr> =
     (Some \<lparr>keycode = 7, timestamp = 70000000\<rparr>,
      \<lparr>theKeySet = [\<lparr>nKeyCode = 7, nLastKeyUpTimestamp = 50000000\<rparr>],
       theMinTimestampDiff = 20000000\<rparr>) \<and>
   KeyState \<lparr>theKeySet = [\<lparr>nKeyCode = 7, nLastKeyUpTimestamp = 50000000\<rparr>],
             theMinTimestampDiff = 20000000\<rparr>
     (keycode \<lparr>keycode = 7, timestamp = 69999999\<rparr>) = Some 50000000 \<and>
   fst (OnKeyEvent \<lparr>theKeySet = [\<lparr>nKeyCode = 7, nLastKeyUpTimestamp = 50000000\<rparr>],
                    theMinTimestampDiff = 20000000\<rparr>
          kCGEventKeyDown \<lparr>keycode = 7, timestamp = 69999999\<rparr>) = None \<and>
   KeyState (snd (OnKeyEvent \<lparr>theKeySet = [\<lparr>nKeyCode = 7, nLastKeyUpTimestamp = 50000000\<rparr>],
                              theMinTimestampDiff = 20000000\<rparr>
                    kCGEventKeyDown \<lparr>keycode = 7, timestamp = 69999999\<rparr>)) 7 = Some 0"
proof -
  have h1: "KeyState \<lparr>theKeySet = [\<lparr>nKeyCode = 7, nLastKeyUpTimestamp = 50000000\<rparr>],
                      theMinTimestampDiff = 20000000\<rparr>
              (keycode \<lparr>keycode = 7, timestamp = 70000000\<rparr>) = Some 50000000"
    by (simp add: KeyState_def IsKeyDataEqual_def)
  have h2: "KeyState \<lparr>theKeySet = [\<lparr>nKeyCode = 7, nLastKeyUpTimestamp = 50000000\<rparr>],
                      theMinTimestampDiff = 20000000\<rparr>
              (keycode \<lparr>keycode = 7, timestamp = 69999999\<rparr>) = Some 50000000"
    by (simp add: KeyState_def IsKeyDataEqual_def)
  have nz: "(50000000 :: 64 word) \<noteq> 0"
    by simp
  show ?thesis
    using h1 h2 nz C1_press_after_release [OF h1 nz] C1_press_after_release [OF h2 nz]
    by simp
qed

text \<open>
  The claim read with the sum \<open>T + minInterval\<close> taken in the integers fails where the 64-bit
  sum wraps. Started with no argument (threshold 20 ms), the engine passes a key-up of key 7
  at \<open>2\<^sup>6\<^sup>4 - 10\<^sup>7\<close> ns and stores that time; a key-down of the same key 5 ns later
  is earlier than the stored time plus the threshold, and is passed.
\<close>

theorem C1_wrap_counterexample:
  "KeyState (snd (run_loop (main_globals None)
       [(kCGEventKeyUp, \<lparr>keycode = 7, timestamp = 18446744073699551616\<rparr>)])) 7
     = Some 18446744073699551616 \<and>
   (18446744073699551616 :: 64 word) \<noteq> 0 \<and>
   unat (timestamp \<lparr>keycode = 7, timestamp = 18446744073699551621\<rparr>)
     < unat (18446744073699551616 :: 64 word)
       + unat (theMinTimestampDiff (snd (run_loop (main_globals None)
           [(kCGEventKeyUp, \<lparr>keycode = 7, timestamp = 18446744073699551616\<rparr>)]))) \<and>
   fst (OnKeyEvent (snd (run_loop (main_globals None)
          [(kCGEventKeyUp, \<lparr>keycode = 7, timestamp = 18446744073699551616\<rparr>)]))
        kCGEventKeyDown \<lparr>keycode = 7, timestamp = 18446744073699551621\<rparr>)
     = Some \<lparr>keycode = 7, timestamp = 18446744073699551621\<rparr>"
  by (simp add: main_globals_def Init_def main_theMinTimestampDiff_def
      DEFAULT_MIN_TIMESTAMP_DIFF_def OnKeyEvent_def CFSetAddValue_def RetainKeyData_def
      KeyState_def IsKeyDataEqual_def set_nLastKeyUpTimestamp_def)

subsection \<open>The scenario of the spec\<close>

text \<open>
  Claim C5. With the threshold 20 and the timestamps in the same unit, the events
  key-up at 0, key-down at 5, key-up at 8, key-down at 40, key-up at 60 of one key \<open>a\<close>,
  starting from the empty set, get the results pass, swallow, swallow, pass, pass, and the
  value stored for \<open>a\<close> after the five calls is 0, 0, 8, 8, 60: the first 0 is the
  timestamp of the first key-up, the second is the held-down value. The last equation is the
  same scenario in nanoseconds, with the threshold that \<^verbatim>\<open>main\<close> computes from the
  argument 20.
\<close>

theorem C5_scenario:
  "run_loop \<lparr>theKeySet = [], theMinTimestampDiff = 20\<rparr>
     [(kCGEventKeyUp, \<lparr>keycode = a, timestamp = 0\<rparr>)] =
     ([Some \<lparr>keycode = a, timestamp = 0\<rparr>],
      \<lparr>theKeySet = [\<lparr>nKeyCode = a, nLastKeyUpTimestamp = 0\<rparr>], theMinTimestampDiff = 20\<rparr>) \<and>
   run_loop \<lparr>theKeySet = [], theMinTimestampDiff = 20\<rparr>
     [(kCGEventKeyUp, \<lparr>keycode = a, timestamp = 0\<rparr>),
      (kCGEventKeyDown, \<lparr>keycode = a, timestamp = 5\<rparr>)] =
     ([Some \<lparr>keycode = a, timestamp = 0\<rparr>, None],
      \<lparr>theKeySet = [\<lparr>nKeyCode = a, nLastKeyUpTimestamp = 0\<rparr>], theMinTimestampDiff = 20\<rparr>) \<and>
   run_loop \<lparr>theKeySet = [], theMinTimestampDiff = 20\<rparr>
     [(kCGEventKeyUp, \<lparr>keycode = a, timestamp = 0\<rparr>),
      (kCGEventKeyDown, \<lparr>keycode = a, timestamp = 5\<rparr>),
      (kCGEventKeyUp, \<lparr>keycode = a, timestamp = 8\<rparr>)] =
     ([Some \<lparr>keycode = a, timestamp = 0\<rparr>, None, None],
      \<lparr>theKeySet = [\<lparr>nKeyCode = a, nLastKeyUpTimestamp = 8\<rparr>], theMinTimestampDiff = 20\<rparr>) \<and>
   run_loop \<lparr>theKeySet = [], theMinTimestampDiff = 20\<rparr>
     [(kCGEventKeyUp, \<lparr>keycode = a, timestamp = 0\<rparr>),
      (kCGEventKeyDown, \<lparr>keycode = a, timestamp = 5\<rparr>),
      (kCGEventKeyUp, \<lparr>keycode = a, timestamp = 8\<rparr>),
      (kCGEventKeyDown, \<lparr>keycode = a, timestamp = 40\<rparr>)] =
     ([Some \<lparr>keycode = a, timestamp = 0\<rparr>, None, None, Some \<lparr>keycode = a, timestamp = 40\<rparr>],
      \<lparr>theKeySet = [\<lparr>nKeyCode = a, nLastKeyUpTimestamp = 8\<rparr>], theMinTimestampDiff = 20\<rparr>) \<and>
   run_loop \<lparr>theKeySet = [], theMinTimestampDiff = 20\<rparr>
     [(kCGEventKeyUp, \<lparr>keycode = a, timestamp = 0\<rparr>),
      (kCGEventKeyDown, \<lparr>keycode = a, timestamp = 5\<rparr>),
      (kCGEventKeyUp, \<lparr>keycode = a, timestamp = 8\<rparr>),
      (kCGEventKeyDown, \<lparr>keycode = a, timestamp = 40\<rparr>),
      (kCGEventKeyUp, \<lparr>keycode = a, timestamp = 60\<rparr>)] =
     ([Some \<lparr>keycode = a, timestamp = 0\<rparr>, None, None, Some \<lparr>keycode = a, timestamp = 40\<rparr>,
       Some \<lparr>keycode = a, timestamp = 60\<rparr>],
      \<lparr>theKeySet = [\<lparr>nKeyCode = a, nLastKeyUpTimestamp = 60\<rparr>], theMinTimestampDiff = 20\<rparr>) \<and>
   run_loop (main_globals (Some 20))
     [(kCGEventKeyUp, \<lparr>keycode = a, timestamp = 0\<rparr>),
      (kCGEventKeyDown, \<lparr>keycode = a, timestamp = 5000000\<rparr>),
      (kCGEventKeyUp, \<lparr>keycode = a, timestamp = 8000000\<rparr>),
      (kCGEventKeyDown, \<lparr>keycode = a, timestamp = 40000000\<rparr>),
      (kCGEventKeyUp, \<lparr>keycode = a, timestamp = 60000000\<rparr>)] =
     ([Some \<lparr>keycode = a, timestamp = 0\<rparr>, None, None,
       Some \<lparr>keycode = a, timestamp = 40000000\<rparr>, Some \<lparr>keycode = a, timestamp = 60000000\<rparr>],
      \<lparr>theKeySet = [\<lparr>nKeyCode = a, nLastKeyUpTimestamp = 60000000\<rparr>],
       theMinTimestampDiff = 20000000\<rparr>)"
  by (simp add: main_globals_def Init_def main_theMinTimestampDiff_def
      DEFAULT_MIN_TIMESTAMP_DIFF_def OnKeyEvent_def CFSetAddValue_def RetainKeyData_def
      IsKeyDataEqual_def set_nLastKeyUpTimestamp_def)

subsection \<open>Start-up configuration\<close>

text \<open>
  Claim C8. Started with no argument or with the argument 0, the engine starts in the same
  globals as when started with the argument 20, so the three engines return the same results
  and reach the same globals on every sequence of events. The threshold in these globals is
  20000000: an argument \<open>n\<close> other than 0 is multiplied by 1000000 (milliseconds to
  nanoseconds, in \<^verbatim>\<open>uint64_t\<close>) before the callback ever compares with it.
\<close>

theorem C8_default_threshold:
  "main_globals None = main_globals (Some 20) \<and>
   main_globals (Some 0) = main_globals (Some 20) \<and>
   run_loop (main_globals None) evs = run_loop (main_globals (Some 20)) evs \<and>
   run_loop (main_globals (Some 0)) evs = run_loop (main_globals (Some 20)) evs \<and>
   main_globals (Some 20) = \<lparr>theKeySet = [], theMinTimestampDiff = 20000000\<rparr> \<and>
   (n \<noteq> 0 \<longrightarrow> main_globals (Some n) = \<lparr>theKeySet = [], theMinTimestampDiff = n * 1000000\<rparr>)"
  by (simp add: main_globals_def Init_def main_theMinTimestampDiff_def
      DEFAULT_MIN_TIMESTAMP_DIFF_def)

theorem C8_default_threshold_witness:
  "(35 :: 64 word) \<noteq> 0 \<and>
   main_globals (Some 35) = \<lparr>theKeySet = [], theMinTimestampDiff = 35000000\<rparr> \<and>
   run_loop (main_globals None)
     [(kCGEventKeyUp, \<lparr>keycode = 7, timestamp = 1000000\<rparr>),
      (kCGEventKeyDown, \<lparr>keycode = 7, timestamp = 6000000\<rparr>)] =
   run_loop (main_globals (Some 20))
     [(kCGEventKeyUp, \<lparr>keycode = 7, timestamp = 1000000\<rparr>),
      (kCGEventKeyDown, \<lparr>keycode = 7, timestamp = 6000000\<rparr>)]"
  using C8_default_threshold
    [of "[(kCGEventKeyUp, \<lparr>keycode = 7, timestamp = 1000000\<rparr>),
          (kCGEventKeyDown, \<lparr>keycode = 7, timestamp = 6000000\<rparr>)]" 35]
  by simp

subsection \<open>The value 0 as a timestamp\<close>

text \<open>
  Claim C9. A key-up with timestamp 0 stores 0, the value the callback reads as "held
  down": from any globals, after a key-up of key \<open>k\<close> at 0 the stored state of \<open>k\<close> is 0, and a
  following key-down of \<open>k\<close> is swallowed at every timestamp, with the globals left as they
  were. In particular, started with no argument (threshold 20000000), the engine passes the
  key-up of key 7 at 0 and swallows the key-down of key 7 at 20000000, which is not earlier
  than the release time 0 plus the threshold.
\<close>

theorem C9_zero_timestamp_release:
  "KeyState (snd (OnKeyEvent g kCGEventKeyUp \<lparr>keycode = k, timestamp = 0\<rparr>)) k = Some 0 \<and>
   OnKeyEvent (snd (OnKeyEvent g kCGEventKeyUp \<lparr>keycode = k, timestamp = 0\<rparr>))
     kCGEventKeyDown \<lparr>keycode = k, timestamp = ts\<rparr> =
     (None, snd (OnKeyEvent g kCGEventKeyUp \<lparr>keycode = k, timestamp = 0\<rparr>)) \<and>
   run_loop (main_globals None)
     [(kCGEventKeyUp, \<lparr>keycode = 7, timestamp = 0\<rparr>),
      (kCGEventKeyDown, \<lparr>keycode = 7, timestamp = 20000000\<rparr>)] =
     ([Some \<lparr>keycode = 7, timestamp = 0\<rparr>, None],
      \<lparr>theKeySet = [\<lparr>nKeyCode = 7, nLastKeyUpTimestamp = 0\<rparr>],
       theMinTimestampDiff = 20000000\<rparr>) \<and>
   unat (0 :: 64 word) + unat (theMinTimestampDiff (main_globals None))
     \<le> unat (timestamp \<lparr>keycode = 7, timestamp = 20000000\<rparr>)"
proof -
  let ?g' = "snd (OnKeyEvent g kCGEventKeyUp \<lparr>keycode = k, timestamp = 0\<rparr>)"
  have st: "KeyState ?g' k = Some 0"
    using KeyUp_KeyState [of g "\<lparr>keycode = k, timestamp = 0\<rparr>" k] by simp
  have dn: "OnKeyEvent ?g' kCGEventKeyDown \<lparr>keycode = k, timestamp = ts\<rparr> = (None, ?g')"
    using KeyDown_held [of ?g' "\<lparr>keycode = k, timestamp = ts\<rparr>"] st by simp
  have run: "run_loop (main_globals None)
     [(kCGEventKeyUp, \<lparr>keycode = 7, timestamp = 0\<rparr>),
      (kCGEventKeyDown, \<lparr>keycode = 7, timestamp = 20000000\<rparr>)] =
     ([Some \<lparr>keycode = 7, timestamp = 0\<rparr>, None],
      \<lparr>theKeySet = [\<lparr>nKeyCode = 7, nLastKeyUpTimestamp = 0\<rparr>],
       theMinTimestampDiff = 20000000\<rparr>)"
    by (simp add: main_globals_def Init_def main_theMinTimestampDiff_def
        DEFAULT_MIN_TIMESTAMP_DIFF_def OnKeyEvent_def CFSetAddValue_def RetainKeyData_def
        IsKeyDataEqual_def)
  have le: "unat (0 :: 64 word) + unat (theMinTimestampDiff (main_globals None))
     \<le> unat (timestamp \<lparr>keycode = 7, timestamp = 20000000\<rparr>)"
    by (simp add: main_globals_def Init_def main_theMinTimestampDiff_def
        DEFAULT_MIN_TIMESTAMP_DIFF_def)
  from st dn run le show ?thesis by simp
qed

subsection \<open>Wrap-around of the 64-bit sum\<close>

lemma KeyDown_verdict:
  assumes "KeyState g (keycode ev) = Some T" and "T \<noteq> 0"
  shows "fst (OnKeyEvent g kCGEventKeyDown ev) = None \<longleftrightarrow>
           timestamp ev < T + theMinTimestampDiff g"
  using KeyDown_late [OF assms] KeyDown_early(1) [OF assms] by (cases "timestamp ev < T + theMinTimestampDiff g") simp_all

lemma unat_main_theMinTimestampDiff:
  "unat (main_theMinTimestampDiff (Some n)) =
     (unat (if n = 0 then 20 else n) * 1000000) mod 2 ^ 64"
  by (simp add: main_theMinTimestampDiff_def DEFAULT_MIN_TIMESTAMP_DIFF_def unat_word_ariths)

text \<open>
  Claim C10. The key-down test is done in 64-bit unsigned arithmetic: for a key with the
  stored release time \<open>T\<close>, a key-down is swallowed exactly when its timestamp is below
  \<open>(T + minInterval) mod 2\<^sup>6\<^sup>4\<close>, and the threshold \<^verbatim>\<open>main\<close> computes from the argument
  \<open>n\<close> is \<open>n * 1000000 mod 2\<^sup>6\<^sup>4\<close> (with 20 for \<open>n = 0\<close>). Whenever \<open>T + minInterval\<close> reaches
  \<open>2\<^sup>6\<^sup>4\<close>, there is a key-down not earlier than \<open>T\<close> and less than \<open>minInterval\<close> after it
  that is passed, with the globals left as they were.
\<close>

theorem C10_wrapping_sum:
  assumes "KeyState g k = Some T" and "T \<noteq> 0"
  shows "(fst (OnKeyEvent g kCGEventKeyDown \<lparr>keycode = k, timestamp = ts\<rparr>) = None \<longleftrightarrow>
            unat ts < (unat T + unat (theMinTimestampDiff g)) mod 2 ^ 64) \<and>
         unat (main_theMinTimestampDiff (Some n)) =
            (unat (if n = 0 then 20 else n) * 1000000) mod 2 ^ 64 \<and>
         (2 ^ 64 \<le> unat T + unat (theMinTimestampDiff g) \<longrightarrow>
            (\<exists>ts'. unat T \<le> unat ts' \<and>
                   unat ts' < unat T + unat (theMinTimestampDiff g) \<and>
                   OnKeyEvent g kCGEventKeyDown \<lparr>keycode = k, timestamp = ts'\<rparr> =
                     (Some \<lparr>keycode = k, timestamp = ts'\<rparr>, g)))"
proof -
  let ?d = "theMinTimestampDiff g"
  have k: "KeyState g (keycode \<lparr>keycode = k, timestamp = t\<rparr>) = Some T" for t
    using assms(1) by simp
  have verdict: "fst (OnKeyEvent g kCGEventKeyDown \<lparr>keycode = k, timestamp = ts\<rparr>) = None \<longleftrightarrow>
      unat ts < (unat T + unat ?d) mod 2 ^ 64"
    using KeyDown_verdict [OF k assms(2), of ts] by (simp add: less_sum_unat)
  have wrap: "\<exists>ts'. unat T \<le> unat ts' \<and> unat ts' < unat T + unat ?d \<and>
      OnKeyEvent g kCGEventKeyDown \<lparr>keycode = k, timestamp = ts'\<rparr> =
        (Some \<lparr>keycode = k, timestamp = ts'\<rparr>, g)"
    if over: "2 ^ 64 \<le> unat T + unat ?d"
  proof -
    have T: "unat T < 2 ^ 64"
      using unsigned_less [of T, where 'a = nat] by simp
    have d: "unat ?d < 2 ^ 64"
      using unsigned_less [of ?d, where 'a = nat] by simp
    from over T d have sum: "(unat T + unat ?d) mod 2 ^ 64 = unat T + unat ?d - 2 ^ 64"
      by (simp add: mod_if)
    from over T have pos: "unat T < unat T + unat ?d"
      by simp
    from sum d have "\<not> unat T < (unat T + unat ?d) mod 2 ^ 64"
      by simp
    then have "\<not> timestamp \<lparr>keycode = k, timestamp = T\<rparr> < T + ?d"
      by (simp add: less_sum_unat)
    with k assms(2) have "OnKeyEvent g kCGEventKeyDown \<lparr>keycode = k, timestamp = T\<rparr> =
        (Some \<lparr>keycode = k, timestamp = T\<rparr>, g)"
      by (rule KeyDown_late)
    with pos show ?thesis by blast
  qed
  from verdict wrap unat_main_theMinTimestampDiff [of n] show ?thesis
    by blast
qed

theorem C10_wrapping_sum_witness:
  "KeyState \<lparr>theKeySet = [\<lparr>nKeyCode = 7, nLastKeyUpTimestamp = 18446744073699551616\<rparr>],
             theMinTimestampDiff = 20000000\<rparr> 7 = Some 18446744073699551616 \<and>
   (18446744073699551616 :: 64 word) \<noteq> 0 \<and>
   (2 :: nat) ^ 64 \<le> unat (18446744073699551616 :: 64 word)
     + unat (theMinTimestampDiff
         \<lparr>theKeySet = [\<lparr>nKeyCode = 7, nLastKeyUpTimestamp = 18446744073699551616\<rparr>],
          theMinTimestampDiff = 20000000\<rparr>) \<and>
   (\<exists>ts'. unat (18446744073699551616 :: 64 word) \<le> unat ts' \<and>
          unat ts' < unat (18446744073699551616 :: 64 word) + 20000000 \<and>
          OnKeyEvent \<lparr>theKeySet = [\<lparr>nKeyCode = 7, nLastKeyUpTimestamp = 18446744073699551616\<rparr>],
                      theMinTimestampDiff = 20000000\<rparr>
            kCGEventKeyDown \<lparr>keycode = 7, timestamp = ts'\<rparr> =
            (Some \<lparr>keycode = 7, timestamp = ts'\<rparr>,
             \<lparr>theKeySet = [\<lparr>nKeyCode = 7, nLastKeyUpTimestamp = 18446744073699551616\<rparr>],
              theMinTimestampDiff = 20000000\<rparr>))"
proof -
  have h: "KeyState \<lparr>theKeySet = [\<lparr>nKeyCode = 7, nLastKeyUpTimestamp = 18446744073699551616\<rparr>],
                     theMinTimestampDiff = 20000000\<rparr> 7 = Some 18446744073699551616"
    by (simp add: KeyState_def IsKeyDataEqual_def)
  have nz: "(18446744073699551616 :: 64 word) \<noteq> 0"
    by simp
  have over: "(2 :: nat) ^ 64 \<le> unat (18446744073699551616 :: 64 word)
     + unat (theMinTimestampDiff
         \<lparr>theKeySet = [\<lparr>nKeyCode = 7, nLastKeyUpTimestamp = 18446744073699551616\<rparr>],
          theMinTimestampDiff = 20000000\<rparr>)"
    by simp
  show ?thesis
    using h nz over C10_wrapping_sum [OF h nz, of 0 0] by simp
qed

subsection \<open>Runs of the callback\<close>

lemma run_loop_Cons:
  "run_loop g ((ty, ev) # evs) =
     (fst (OnKeyEvent g ty ev) # fst (run_loop (snd (OnKeyEvent g ty ev)) evs),
      snd (run_loop (snd (OnKeyEvent g ty ev)) evs))"
  by (simp add: split_def Let_def)

lemma snd_run_loop_append:
  "snd (run_loop g (evs @ evs')) = snd (run_loop (snd (run_loop g evs)) evs')"
proof (induction evs arbitrary: g)
  case Nil
  show ?case by simp
next
  case (Cons e evs)
  obtain ty ev where e: "e = (ty, ev)" by (cases e)
  show ?case
    unfolding e append_Cons run_loop_Cons snd_conv by (rule Cons.IH)
qed

lemma OnKeyEvent_other:
  "OnKeyEvent g kCGEventOther ev = (Some ev, g)"
  by (simp add: OnKeyEvent_def)

lemma keys_OnKeyEvent:
  "map nKeyCode (theKeySet (snd (OnKeyEvent g ty ev))) =
     (if ty = kCGEventKeyUp \<and> keycode ev \<notin> set (map nKeyCode (theKeySet g))
      then map nKeyCode (theKeySet g) @ [keycode ev]
      else map nKeyCode (theKeySet g))"
proof -
  let ?v = "\<lparr>nKeyCode = keycode ev, nLastKeyUpTimestamp = timestamp ev\<rparr>"
  show ?thesis
  proof (cases "CFSetGetValue (theKeySet g) ?v")
    case None
    then have "keycode ev \<notin> set (map nKeyCode (theKeySet g))"
      by (simp add: CFSetGetValue_None)
    with None show ?thesis
      by (cases ty) (simp_all add: OnKeyEvent_def CFSetAddValue_def RetainKeyData_def)
  next
    case (Some p)
    then have "p < length (theKeySet g)" "nKeyCode (theKeySet g ! p) = keycode ev"
      using CFSetGetValue_Some [of "theKeySet g" ?v p] by simp_all
    then have "keycode ev \<in> set (map nKeyCode (theKeySet g))"
      using nth_mem [of p "map nKeyCode (theKeySet g)"] by auto
    with Some show ?thesis
      by (cases ty) (simp_all add: OnKeyEvent_def Let_def keys_set_nLastKeyUpTimestamp)
  qed
qed

lemma keys_run_loop:
  "distinct (map nKeyCode (theKeySet g)) \<Longrightarrow>
   distinct (map nKeyCode (theKeySet (snd (run_loop g evs)))) \<and>
   set (map nKeyCode (theKeySet (snd (run_loop g evs)))) =
     set (map nKeyCode (theKeySet g)) \<union> {keycode ev |ev. (kCGEventKeyUp, ev) \<in> set evs}"
proof (induction evs arbitrary: g)
  case Nil
  then show ?case by simp
next
  case (Cons e evs)
  obtain ty ev where e: "e = (ty, ev)" by (cases e)
  let ?g' = "snd (OnKeyEvent g ty ev)"
  from Cons.prems have d': "distinct (map nKeyCode (theKeySet ?g'))"
    by (simp add: keys_OnKeyEvent)
  have s': "set (map nKeyCode (theKeySet ?g')) =
      set (map nKeyCode (theKeySet g)) \<union> (if ty = kCGEventKeyUp then {keycode ev} else {})"
    by (auto simp: keys_OnKeyEvent)
  from Cons.IH [OF d'] s' show ?case
    unfolding e run_loop_Cons snd_conv by auto
qed

lemma KeyState_None:
  "KeyState g k = None \<longleftrightarrow> k \<notin> set (map nKeyCode (theKeySet g))"
  using CFSetGetValue_None [of "theKeySet g" "\<lparr>nKeyCode = k, nLastKeyUpTimestamp = 0\<rparr>"]
  by (cases "CFSetGetValue (theKeySet g) \<lparr>nKeyCode = k, nLastKeyUpTimestamp = 0\<rparr>")
    (simp_all add: KeyState_def)

subsection \<open>One record per key\<close>

text \<open>
  Claim C6. After any sequence of calls of the callback that starts from the empty set
  \<^verbatim>\<open>Init\<close> creates: no two stored records have the same key code; a record with key code \<open>k\<close>
  is stored exactly when a key-up event of \<open>k\<close> is among the events processed; and a record
  that is stored after some events is still stored after any further events.
\<close>

theorem C6_one_record_per_key:
  "distinct (map nKeyCode (theKeySet (snd (run_loop (Init g) evs)))) \<and>
   (k \<in> set (map nKeyCode (theKeySet (snd (run_loop (Init g) evs)))) \<longleftrightarrow>
      (\<exists>ev. (kCGEventKeyUp, ev) \<in> set evs \<and> keycode ev = k)) \<and>
   (KeyState (snd (run_loop (Init g) evs)) k \<noteq> None \<longleftrightarrow>
      (\<exists>ev. (kCGEventKeyUp, ev) \<in> set evs \<and> keycode ev = k)) \<and>
   (k \<in> set (map nKeyCode (theKeySet (snd (run_loop (Init g) evs)))) \<longrightarrow>
      k \<in> set (map nKeyCode (theKeySet (snd (run_loop (Init g) (evs @ evs'))))))"
proof -
  have d0: "distinct (map nKeyCode (theKeySet (Init g)))"
    by (simp add: Init_def)
  have e0: "set (map nKeyCode (theKeySet (Init g))) = {}"
    by (simp add: Init_def)
  note inv = keys_run_loop [OF d0, unfolded e0]
  have keys: "k \<in> set (map nKeyCode (theKeySet (snd (run_loop (Init g) evs)))) \<longleftrightarrow>
      (\<exists>ev. (kCGEventKeyUp, ev) \<in> set evs \<and> keycode ev = k)"
    using inv [of evs] by auto
  have state: "KeyState (snd (run_loop (Init g) evs)) k \<noteq> None \<longleftrightarrow>
      (\<exists>ev. (kCGEventKeyUp, ev) \<in> set evs \<and> keycode ev = k)"
    using keys by (simp add: KeyState_None)
  have kept: "k \<in> set (map nKeyCode (theKeySet (snd (run_loop (Init g) (evs @ evs')))))"
    if "k \<in> set (map nKeyCode (theKeySet (snd (run_loop (Init g) evs))))"
    using that inv [of evs] inv [of "evs @ evs'"] by auto
  from inv [of evs] keys state kept show ?thesis by blast
qed

theorem C6_one_record_per_key_witness:
  "7 \<in> set (map nKeyCode (theKeySet (snd (run_loop
          (Init \<lparr>theKeySet = [\<lparr>nKeyCode = 1, nLastKeyUpTimestamp = 5\<rparr>],
                 theMinTimestampDiff = 20000000\<rparr>)
          [(kCGEventKeyDown, \<lparr>keycode = 7, timestamp = 1000000\<rparr>),
           (kCGEventKeyUp, \<lparr>keycode = 7, timestamp = 2000000\<rparr>)])))) \<and>
   7 \<in> set (map nKeyCode (theKeySet (snd (run_loop
          (Init \<lparr>theKeySet = [\<lparr>nKeyCode = 1, nLastKeyUpTimestamp = 5\<rparr>],
                 theMinTimestampDiff = 20000000\<rparr>)
          ([(kCGEventKeyDown, \<lparr>keycode = 7, timestamp = 1000000\<rparr>),
            (kCGEventKeyUp, \<lparr>keycode = 7, timestamp = 2000000\<rparr>)] @
           [(kCGEventKeyDown, \<lparr>keycode = 7, timestamp = 3000000\<rparr>)]))))) \<and>
   distinct (map nKeyCode (theKeySet (snd (run_loop
          (Init \<lparr>theKeySet = [\<lparr>nKeyCode = 1, nLastKeyUpTimestamp = 5\<rparr>],
                 theMinTimestampDiff = 20000000\<rparr>)
          [(kCGEventKeyDown, \<lparr>keycode = 7, timestamp = 1000000\<rparr>),
           (kCGEventKeyUp, \<lparr>keycode = 7, timestamp = 2000000\<rparr>)]))))"
proof -
  have h: "7 \<in> set (map nKeyCode (theKeySet (snd (run_loop
          (Init \<lparr>theKeySet = [\<lparr>nKeyCode = 1, nLastKeyUpTimestamp = 5\<rparr>],
                 theMinTimestampDiff = 20000000\<rparr>)
          [(kCGEventKeyDown, \<lparr>keycode = 7, timestamp = 1000000\<rparr>),
           (kCGEventKeyUp, \<lparr>keycode = 7, timestamp = 2000000\<rparr>)]))))"
    by (simp add: Init_def OnKeyEvent_def CFSetAddValue_def RetainKeyData_def)
  show ?thesis
    using h C6_one_record_per_key
      [of "\<lparr>theKeySet = [\<lparr>nKeyCode = 1, nLastKeyUpTimestamp = 5\<rparr>],
            theMinTimestampDiff = 20000000\<rparr>"
          "[(kCGEventKeyDown, \<lparr>keycode = 7, timestamp = 1000000\<rparr>),
            (kCGEventKeyUp, \<lparr>keycode = 7, timestamp = 2000000\<rparr>)]"
          7
          "[(kCGEventKeyDown, \<lparr>keycode = 7, timestamp = 3000000\<rparr>)]"]
    by blast
qed

subsection \<open>Independence of the keys\<close>

lemma filter_list_update_other:
  "i < length xs \<Longrightarrow> \<not> P (xs ! i) \<Longrightarrow> \<not> P x \<Longrightarrow> filter P (xs[i := x]) = filter P xs"
proof (induction xs arbitrary: i)
  case Nil
  then show ?case by simp
next
  case (Cons y ys)
  then show ?case by (cases i) simp_all
qed

lemma filter_set_nLastKeyUpTimestamp:
  assumes "CFSetGetValue ks v = Some p" and "nKeyCode v \<noteq> k"
  shows "filter (\<lambda>e. nKeyCode e = k) (set_nLastKeyUpTimestamp ks p t) =
         filter (\<lambda>e. nKeyCode e = k) ks"
proof -
  from assms(1) have "p < length ks" "nKeyCode (ks ! p) = nKeyCode v"
    by (simp_all add: CFSetGetValue_Some)
  with assms(2) show ?thesis
    unfolding set_nLastKeyUpTimestamp_def
    by (intro filter_list_update_other) simp_all
qed

lemma records_OnKeyEvent:
  assumes "keycode ev \<noteq> k"
  shows "filter (\<lambda>e. nKeyCode e = k) (theKeySet (snd (OnKeyEvent g ty ev))) =
         filter (\<lambda>e. nKeyCode e = k) (theKeySet g)"
proof -
  let ?v = "\<lparr>nKeyCode = keycode ev, nLastKeyUpTimestamp = timestamp ev\<rparr>"
  show ?thesis
  proof (cases "CFSetGetValue (theKeySet g) ?v")
    case None
    with assms show ?thesis
      by (cases ty) (simp_all add: OnKeyEvent_def CFSetAddValue_def RetainKeyData_def)
  next
    case (Some p)
    from assms have "nKeyCode ?v \<noteq> k" by simp
    note upd = filter_set_nLastKeyUpTimestamp [OF Some this]
    from Some show ?thesis
      by (cases ty) (simp_all add: OnKeyEvent_def Let_def upd)
  qed
qed

lemma KeyDown_fst:
  "fst (OnKeyEvent g kCGEventKeyDown ev) =
     (case KeyState g (keycode ev) of
        None \<Rightarrow> Some ev
      | Some T \<Rightarrow> if T = 0 \<or> timestamp ev < T + theMinTimestampDiff g then None else Some ev)"
proof (cases "KeyState g (keycode ev)")
  case None
  then show ?thesis by (simp add: KeyDown_absent)
next
  case (Some T)
  show ?thesis
  proof (cases "T = 0")
    case True
    with Some show ?thesis by (simp add: KeyDown_held)
  next
    case False
    with Some show ?thesis
      using KeyDown_late [of g ev T] KeyDown_early(1) [of g ev T]
      by (cases "timestamp ev < T + theMinTimestampDiff g") simp_all
  qed
qed

lemma KeyDown_KeyState:
  "KeyState (snd (OnKeyEvent g kCGEventKeyDown ev)) k =
     (if k = keycode ev
      then (case KeyState g (keycode ev) of
              None \<Rightarrow> None
            | Some T \<Rightarrow> if T = 0 \<or> timestamp ev < T + theMinTimestampDiff g then Some 0
                        else Some T)
      else KeyState g k)"
proof (cases "KeyState g (keycode ev)")
  case None
  then show ?thesis by (simp add: KeyDown_absent)
next
  case (Some T)
  show ?thesis
  proof (cases "T = 0")
    case True
    with Some show ?thesis by (simp add: KeyDown_held)
  next
    case False
    with Some show ?thesis
      using KeyDown_late [of g ev T] KeyDown_early(2) [of g ev T k]
      by (cases "timestamp ev < T + theMinTimestampDiff g") simp_all
  qed
qed

lemma KeyState_other_key:
  "keycode ev \<noteq> k \<Longrightarrow> KeyState (snd (OnKeyEvent g ty ev)) k = KeyState g k"
  by (cases ty) (auto simp: KeyDown_KeyState KeyUp_KeyState OnKeyEvent_other)


lemma same_key_step:
  assumes "KeyState g1 (keycode ev) = KeyState g2 (keycode ev)"
    and "theMinTimestampDiff g1 = theMinTimestampDiff g2"
  shows "fst (OnKeyEvent g1 ty ev) = fst (OnKeyEvent g2 ty ev)"
    and "KeyState (snd (OnKeyEvent g1 ty ev)) (keycode ev) =
         KeyState (snd (OnKeyEvent g2 ty ev)) (keycode ev)"
proof -
  show "fst (OnKeyEvent g1 ty ev) = fst (OnKeyEvent g2 ty ev)"
    using assms
    by (cases ty) (simp_all add: KeyDown_fst KeyUp_verdict OnKeyEvent_other split: option.splits)
  show "KeyState (snd (OnKeyEvent g1 ty ev)) (keycode ev) =
        KeyState (snd (OnKeyEvent g2 ty ev)) (keycode ev)"
    using assms
    by (cases ty) (simp_all add: KeyDown_KeyState KeyUp_KeyState OnKeyEvent_other split: option.splits)
qed


lemma results_of_Cons:
  "results_of k ((ty, ev) # evs) (r # rs) =
     (if keycode ev = k then r # results_of k evs rs else results_of k evs rs)"
  by (simp add: results_of_def)

lemma events_of_Cons:
  "events_of k ((ty, ev) # evs) =
     (if keycode ev = k then (ty, ev) # events_of k evs else events_of k evs)"
  by (simp add: events_of_def)

lemma run_loop_one_key:
  assumes "KeyState g1 k = KeyState g2 k"
    and "theMinTimestampDiff g1 = theMinTimestampDiff g2"
  shows "results_of k evs (fst (run_loop g1 evs)) = fst (run_loop g2 (events_of k evs)) \<and>
         KeyState (snd (run_loop g1 evs)) k = KeyState (snd (run_loop g2 (events_of k evs))) k"
  using assms
proof (induction evs arbitrary: g1 g2)
  case Nil
  then show ?case by (simp add: results_of_def events_of_def)
next
  case (Cons e evs)
  obtain ty ev where e: "e = (ty, ev)" by (cases e)
  let ?g1 = "snd (OnKeyEvent g1 ty ev)"
  let ?g2 = "snd (OnKeyEvent g2 ty ev)"
  have d1: "theMinTimestampDiff ?g1 = theMinTimestampDiff g2"
    using Cons.prems(2) by (simp add: theMinTimestampDiff_OnKeyEvent)
  show ?case
  proof (cases "keycode ev = k")
    case True
    from Cons.prems True have s: "KeyState ?g1 k = KeyState ?g2 k"
      and r: "fst (OnKeyEvent g1 ty ev) = fst (OnKeyEvent g2 ty ev)"
      using same_key_step [of g1 ev g2 ty] by simp_all
    from d1 have d: "theMinTimestampDiff ?g1 = theMinTimestampDiff ?g2"
      by (simp add: theMinTimestampDiff_OnKeyEvent)
    from Cons.IH [OF s d] True r show ?thesis
      by (simp add: e run_loop_Cons events_of_Cons results_of_Cons del: run_loop.simps)
  next
    case False
    with Cons.prems(1) have s: "KeyState ?g1 k = KeyState g2 k"
      by (simp add: KeyState_other_key)
    from Cons.IH [OF s d1] False show ?thesis
      by (simp add: e run_loop_Cons events_of_Cons results_of_Cons del: run_loop.simps)
  qed
qed

text \<open>
  Claim C7. A call of the callback for an event of key \<open>a\<close> leaves every stored record of
  every other key \<open>b\<close> as it was, and with it the stored state of \<open>b\<close>. In any sequence of
  events, the results of the events of \<open>b\<close> and the stored state of \<open>b\<close> at the end are those of
  the run in which the events of \<open>b\<close> are the only ones: the events of other keys make no
  difference to them.
\<close>

theorem C7_keys_independent:
  "(keycode ev \<noteq> b \<longrightarrow>
      filter (\<lambda>e. nKeyCode e = b) (theKeySet (snd (OnKeyEvent g ty ev))) =
        filter (\<lambda>e. nKeyCode e = b) (theKeySet g) \<and>
      KeyState (snd (OnKeyEvent g ty ev)) b = KeyState g b) \<and>
   results_of b evs (fst (run_loop g evs)) = fst (run_loop g (events_of b evs)) \<and>
   KeyState (snd (run_loop g evs)) b = KeyState (snd (run_loop g (events_of b evs))) b"
  using run_loop_one_key [of g b g evs]
  by (simp add: records_OnKeyEvent KeyState_other_key)

theorem C7_keys_independent_witness:
  "keycode \<lparr>keycode = 7, timestamp = 2000000\<rparr> \<noteq> (9 :: 64 word) \<and>
   KeyState (snd (OnKeyEvent
       \<lparr>theKeySet = [\<lparr>nKeyCode = 9, nLastKeyUpTimestamp = 1000000\<rparr>],
        theMinTimestampDiff = 20000000\<rparr>
       kCGEventKeyUp \<lparr>keycode = 7, timestamp = 2000000\<rparr>)) 9 = Some 1000000 \<and>
   filter (\<lambda>e. nKeyCode e = 9) (theKeySet (snd (OnKeyEvent
       \<lparr>theKeySet = [\<lparr>nKeyCode = 9, nLastKeyUpTimestamp = 1000000\<rparr>],
        theMinTimestampDiff = 20000000\<rparr>
       kCGEventKeyUp \<lparr>keycode = 7, timestamp = 2000000\<rparr>))) =
     [\<lparr>nKeyCode = 9, nLastKeyUpTimestamp = 1000000\<rparr>] \<and>
   results_of 9
     [(kCGEventKeyUp, \<lparr>keycode = 7, timestamp = 2000000\<rparr>),
      (kCGEventKeyDown, \<lparr>keycode = 9, timestamp = 3000000\<rparr>),
      (kCGEventKeyDown, \<lparr>keycode = 7, timestamp = 4000000\<rparr>),
      (kCGEventKeyUp, \<lparr>keycode = 9, timestamp = 5000000\<rparr>)]
     (fst (run_loop
        \<lparr>theKeySet = [\<lparr>nKeyCode = 9, nLastKeyUpTimestamp = 1000000\<rparr>],
         theMinTimestampDiff = 20000000\<rparr>
        [(kCGEventKeyUp, \<lparr>keycode = 7, timestamp = 2000000\<rparr>),
         (kCGEventKeyDown, \<lparr>keycode = 9, timestamp = 3000000\<rparr>),
         (kCGEventKeyDown, \<lparr>keycode = 7, timestamp = 4000000\<rparr>),
         (kCGEventKeyUp, \<lparr>keycode = 9, timestamp = 5000000\<rparr>)])) =
     [None, None]"
proof -
  have h: "keycode \<lparr>keycode = 7, timestamp = 2000000\<rparr> \<noteq> (9 :: 64 word)"
    by simp
  have st: "KeyState \<lparr>theKeySet = [\<lparr>nKeyCode = 9, nLastKeyUpTimestamp = 1000000\<rparr>],
                      theMinTimestampDiff = 20000000\<rparr> 9 = Some 1000000"
    by (simp add: KeyState_def IsKeyDataEqual_def)
  have alone: "fst (run_loop
        \<lparr>theKeySet = [\<lparr>nKeyCode = 9, nLastKeyUpTimestamp = 1000000\<rparr>],
         theMinTimestampDiff = 20000000\<rparr>
        (events_of 9
          [(kCGEventKeyUp, \<lparr>keycode = 7, timestamp = 2000000\<rparr>),
           (kCGEventKeyDown, \<lparr>keycode = 9, timestamp = 3000000\<rparr>),
           (kCGEventKeyDown, \<lparr>keycode = 7, timestamp = 4000000\<rparr>),
           (kCGEventKeyUp, \<lparr>keycode = 9, timestamp = 5000000\<rparr>)])) = [None, None]"
    by (simp add: events_of_def OnKeyEvent_def IsKeyDataEqual_def set_nLastKeyUpTimestamp_def)
  show ?thesis
    using h st alone C7_keys_independent
      [of "\<lparr>keycode = 7, timestamp = 2000000\<rparr>" 9
          "\<lparr>theKeySet = [\<lparr>nKeyCode = 9, nLastKeyUpTimestamp = 1000000\<rparr>],
            theMinTimestampDiff = 20000000\<rparr>"
          kCGEventKeyUp
          "[(kCGEventKeyUp, \<lparr>keycode = 7, timestamp = 2000000\<rparr>),
            (kCGEventKeyDown, \<lparr>keycode = 9, timestamp = 3000000\<rparr>),
            (kCGEventKeyDown, \<lparr>keycode = 7, timestamp = 4000000\<rparr>),
            (kCGEventKeyUp, \<lparr>keycode = 9, timestamp = 5000000\<rparr>)]"]
    by simp
qed

end
